theory Spec2Isabelle
  imports Complex_Main "HOL-Library.Word" "HOL-Library.Sublist" "HOL-Library.AList"
begin

section \<open>The object-store backend of the git filesystem (s3Filesystem.ts)\<close>

text \<open>
  The development embeds the class \<open>S3PromisifiedFileSystem\<close> of
  \<^verbatim>\<open>server/tinylicious/src/routes/storage/git/filesystem/s3Filesystem.ts\<close>
  (the version with \<open>normalizePath\<close>) together with the interface types of
  \<^verbatim>\<open>filesystem.ts\<close>. Asynchronous calls are modelled by their results: a rejected
  promise is the \<open>Inl\<close> branch of a sum, a resolved one the \<open>Inr\<close> branch. The bucket is
  passed explicitly and every mutating operation returns the bucket it leaves behind.
\<close>

subsection \<open>JavaScript string primitives\<close>

text \<open>
  A path is a JavaScript string, modelled as a list of characters. The primitives below
  are the ones the source calls: \<open>startsWith\<close>, \<open>endsWith\<close>, \<open>includes\<close> (here \<open>includes_str\<close>),
  \<open>indexOf\<close> (which answers \<open>-1\<close> when the needle is absent) and \<open>slice\<close> (whose
  negative indices count from the end and whose bounds are clamped to the string).
\<close>

definition startsWith :: "string \<Rightarrow> string \<Rightarrow> bool" where
  "startsWith s w = prefix w s"

definition endsWith :: "string \<Rightarrow> string \<Rightarrow> bool" where
  "endsWith s w = prefix (rev w) (rev s)"

fun includes_str :: "string \<Rightarrow> string \<Rightarrow> bool" where
  "includes_str [] w = (w = [])"
| "includes_str (c # cs) w = (prefix w (c # cs) \<or> includes_str cs w)"

fun indexOf :: "string \<Rightarrow> string \<Rightarrow> int" where
  "indexOf [] w = (if w = [] then 0 else - 1)"
| "indexOf (c # cs) w =
     (if prefix w (c # cs) then 0
      else (let r = indexOf cs w in if r < 0 then - 1 else r + 1))"

definition clamp_index :: "string \<Rightarrow> int \<Rightarrow> nat" where
  "clamp_index s i =
     (if i < 0 then nat (max (int (length s) + i) 0) else min (nat i) (length s))"

definition slice :: "string \<Rightarrow> int \<Rightarrow> int \<Rightarrow> string" where
  "slice s b e = take (clamp_index s e - clamp_index s b) (drop (clamp_index s b) s)"

definition slice_from :: "string \<Rightarrow> int \<Rightarrow> string" where
  "slice_from s b = drop (clamp_index s b) s"

subsection \<open>The regular expression \<open>SHA_MATCHER\<close>\<close>

text \<open>
  \<^verbatim>\<open>([0-9a-f]{4,40}-[0-9a-f]{4,40}-[0-9a-f]{4,40}-[0-9a-f]{4,40}-)[0-9a-f]{4,40}\<close>
  has no anchors and no flags, so \<open>exec\<close> tries the start positions from left to right
  and answers the text matched at the first position where the pattern succeeds.

  At a fixed start position the pattern is deterministic. A group
  \<open>[0-9a-f]{4,40}-\<close> consumes hexadecimal digits greedily and must then read a dash,
  which is not a hexadecimal digit: giving digits back never helps, so the group succeeds
  exactly when the maximal run of digits has 4 to 40 characters and a dash follows it.
  The last group has nothing after it and keeps the greedy choice, the first 40 digits
  of the run at most.
\<close>

definition is_hex :: "char \<Rightarrow> bool" where
  "is_hex c = (c \<in> set ''0123456789abcdef'')"

definition hex_group_dash :: "string \<Rightarrow> (string \<times> string) option" where
  "hex_group_dash s =
     (let run = takeWhile is_hex s; rest = dropWhile is_hex s
      in if 4 \<le> length run \<and> length run \<le> 40 \<and> startsWith rest ''-''
         then Some (run @ ''-'', drop 1 rest) else None)"

definition hex_tail :: "string \<Rightarrow> string option" where
  "hex_tail s =
     (let run = take 40 (takeWhile is_hex s)
      in if 4 \<le> length run then Some run else None)"

definition sha_match_at :: "string \<Rightarrow> string option" where
  "sha_match_at s =
     (case hex_group_dash s of None \<Rightarrow> None | Some (g1, r1) \<Rightarrow>
      case hex_group_dash r1 of None \<Rightarrow> None | Some (g2, r2) \<Rightarrow>
      case hex_group_dash r2 of None \<Rightarrow> None | Some (g3, r3) \<Rightarrow>
      case hex_group_dash r3 of None \<Rightarrow> None | Some (g4, r4) \<Rightarrow>
      case hex_tail r4 of None \<Rightarrow> None | Some g5 \<Rightarrow>
        Some (g1 @ g2 @ g3 @ g4 @ g5))"

fun SHA_MATCHER_exec :: "string \<Rightarrow> string option" where
  "SHA_MATCHER_exec [] = sha_match_at []"
| "SHA_MATCHER_exec (c # cs) =
     (case sha_match_at (c # cs) of
        Some m \<Rightarrow> Some m
      | None \<Rightarrow> SHA_MATCHER_exec cs)"

subsection \<open>\<open>normalizePath\<close>\<close>

definition normalizePath :: "string \<Rightarrow> string" where
  "normalizePath filepath =
     (let p = (if startsWith filepath ''/'' then slice_from filepath 1 else filepath)
      in case SHA_MATCHER_exec p of
           Some sha \<Rightarrow>
             if \<not> includes_str p ''objects''
             then (let start = slice p 0 (indexOf p ''.git/'' + 5)
                   in start @ ''refs/heads/'' @ sha)
             else p
         | None \<Rightarrow> p)"

subsection \<open>Errors\<close>

text \<open>
  A thrown value is a JavaScript error object. \<open>JsError m\<close> is \<open>new Error(m)\<close>;
  \<open>Coded c m\<close> is an \<open>Error\<close> whose \<open>code\<close> property was set to \<open>c\<close>; and
  \<open>ServiceException n m\<close> is an exception of the store client, with its name and
  message and no \<open>code\<close> property. Every \<open>catch\<close> block of the class builds
  \<open>new Error(typed.message)\<close> and sets its code to \<open>ENOENT\<close>: this is \<open>rethrow\<close>.
\<close>

datatype error =
    JsError string
  | Coded string string
  | ServiceException string string

fun message :: "error \<Rightarrow> string" where
  "message (JsError m) = m"
| "message (Coded c m) = m"
| "message (ServiceException n m) = m"

fun code :: "error \<Rightarrow> string option" where
  "code (JsError m) = None"
| "code (Coded c m) = Some c"
| "code (ServiceException n m) = None"

definition rethrow :: "error \<Rightarrow> error" where
  "rethrow e = Coded ''ENOENT'' (message e)"

subsection \<open>The store client\<close>

text \<open>
  The bucket behind the client of \<^verbatim>\<open>@aws-sdk/client-s3\<close> is outside the repository. It is
  modelled as the flat store of the data model: an association list from keys to objects,
  each object a payload and a last-modified time, changed only by whole-key overwrite and
  delete. A call happens in an environment \<open>env\<close>: \<open>fault\<close> is the failure the service
  answers this call with, if any (throttling, missing permission, a lost connection), and
  \<open>now\<close> the clock in milliseconds. Reading the metadata or the payload of an absent key
  is a failure of the service; deleting an absent key is not. A listing answers the keys
  under a prefix in ascending order, groups those that continue past the delimiter into
  common prefixes, and stops after \<open>max_keys\<close> entries; a channel with no entry is left
  undefined in the answer.
\<close>

type_synonym bytes = "8 word list"

record s3_object =
  Body :: bytes
  LastModified :: nat

type_synonym bucket = "(string \<times> s3_object) list"

record env =
  fault :: "error option"
  now :: nat

record head_output =
  ContentLength :: nat
  HeadLastModified :: nat

record list_output =
  CommonPrefixes :: "string list option"
  Contents :: "string list option"

datatype list_entry = Prefix string | Key string

definition getObject :: "env \<Rightarrow> bucket \<Rightarrow> string \<Rightarrow> error + bytes option" where
  "getObject ev b k =
     (case fault ev of
        Some e \<Rightarrow> Inl e
      | None \<Rightarrow>
          (case map_of b k of
             None \<Rightarrow> Inl (ServiceException ''NoSuchKey'' ''The specified key does not exist.'')
           | Some ob \<Rightarrow> Inr (Some (Body ob))))"

definition putObject :: "env \<Rightarrow> bucket \<Rightarrow> string \<Rightarrow> bytes \<Rightarrow> (error + unit) \<times> bucket" where
  "putObject ev b k body =
     (case fault ev of
        Some e \<Rightarrow> (Inl e, b)
      | None \<Rightarrow> (Inr (), AList.update k \<lparr>Body = body, LastModified = now ev\<rparr> b))"

definition deleteObject :: "env \<Rightarrow> bucket \<Rightarrow> string \<Rightarrow> (error + unit) \<times> bucket" where
  "deleteObject ev b k =
     (case fault ev of
        Some e \<Rightarrow> (Inl e, b)
      | None \<Rightarrow> (Inr (), AList.delete k b))"

definition headObject :: "env \<Rightarrow> bucket \<Rightarrow> string \<Rightarrow> error + head_output" where
  "headObject ev b k =
     (case fault ev of
        Some e \<Rightarrow> Inl e
      | None \<Rightarrow>
          (case map_of b k of
             None \<Rightarrow> Inl (ServiceException ''NotFound'' ''UnknownError'')
           | Some ob \<Rightarrow>
               Inr \<lparr>ContentLength = length (Body ob), HeadLastModified = LastModified ob\<rparr>))"

fun key_less :: "string \<Rightarrow> string \<Rightarrow> bool" where
  "key_less [] [] = False"
| "key_less [] (y # ys) = True"
| "key_less (x # xs) [] = False"
| "key_less (x # xs) (y # ys) =
     ((of_char x :: nat) < of_char y \<or> (x = y \<and> key_less xs ys))"

fun insert_key :: "string \<Rightarrow> string list \<Rightarrow> string list" where
  "insert_key k [] = [k]"
| "insert_key k (x # xs) =
     (if k = x then x # xs
      else if key_less k x then k # x # xs
      else x # insert_key k xs)"

definition sort_keys :: "string list \<Rightarrow> string list" where
  "sort_keys ks = foldr insert_key ks []"

definition max_keys :: nat where
  "max_keys = 1000"

definition list_entry_of :: "string \<Rightarrow> string \<Rightarrow> string \<Rightarrow> list_entry" where
  "list_entry_of pfx delim k =
     (let rest = drop (length pfx) k; i = indexOf rest delim
      in if delim \<noteq> [] \<and> 0 \<le> i
         then Prefix (pfx @ take (nat i + length delim) rest)
         else Key k)"

fun prefixes_of :: "list_entry list \<Rightarrow> string list" where
  "prefixes_of [] = []"
| "prefixes_of (Prefix p # es) = p # prefixes_of es"
| "prefixes_of (Key k # es) = prefixes_of es"

fun keys_of :: "list_entry list \<Rightarrow> string list" where
  "keys_of [] = []"
| "keys_of (Prefix p # es) = keys_of es"
| "keys_of (Key k # es) = k # keys_of es"

definition defined_list :: "string list \<Rightarrow> string list option" where
  "defined_list xs = (if xs = [] then None else Some xs)"

definition listObjects :: "env \<Rightarrow> bucket \<Rightarrow> string \<Rightarrow> string \<Rightarrow> error + list_output" where
  "listObjects ev b pfx delim =
     (case fault ev of
        Some e \<Rightarrow> Inl e
      | None \<Rightarrow>
          (let ks = filter (\<lambda>k. startsWith k pfx) (sort_keys (map fst b));
               es = take max_keys (remdups_adj (map (list_entry_of pfx delim) ks))
           in Inr \<lparr>CommonPrefixes = defined_list (prefixes_of es),
                   Contents = defined_list (keys_of es)\<rparr>))"

subsection \<open>The interface types of filesystem.ts\<close>

record EncodingOpts =
  encoding :: "string option"

datatype stat_type = File | Dir | Symlink

record StatLike =
  type :: stat_type
  mode :: nat
  size' :: nat
  ino :: string
  mtimeMs :: rat

datatype data = Text string | Bytes bytes

subsection \<open>The operations of \<open>S3PromisifiedFileSystem\<close>\<close>

text \<open>
  \<open>encode\<close> and \<open>decode\<close> of \<^verbatim>\<open>isomorphic-textencoder\<close> are parameters of
  \<open>writeFile\<close> and \<open>readFile\<close>.
\<close>

definition readFile ::
  "(bytes \<Rightarrow> string) \<Rightarrow> env \<Rightarrow> bucket \<Rightarrow> string \<Rightarrow> EncodingOpts \<Rightarrow> error + data" where
  "readFile decode ev b filepath opts =
     (let path = normalizePath filepath
      in case getObject ev b path of
           Inl e \<Rightarrow> Inl (rethrow e)
         | Inr stream \<Rightarrow>
             (case stream of
                Some array \<Rightarrow>
                  if encoding opts = Some ''utf8'' then Inr (Text (decode array))
                  else Inr (Bytes array)
              | None \<Rightarrow> Inl (rethrow (JsError ''no stream found''))))"

definition unsupported_encoding :: string where
  "unsupported_encoding =
     ''Only '' @ [CHR 0x22] @ ''utf8'' @ [CHR 0x22] @ '' encoding is supported in writeFile''"

definition writeFile ::
  "(string \<Rightarrow> bytes) \<Rightarrow> env \<Rightarrow> bucket \<Rightarrow> string \<Rightarrow> data \<Rightarrow> EncodingOpts
     \<Rightarrow> (error + unit) \<times> bucket" where
  "writeFile encode ev b filepath input opts =
     (let path = normalizePath filepath;
          enc = (case encoding opts of None \<Rightarrow> ''utf8'' | Some x \<Rightarrow> x)
      in case (case input of
                 Text s \<Rightarrow>
                   if enc \<noteq> ''utf8'' then Inl (JsError unsupported_encoding)
                   else Inr (encode s)
               | Bytes a \<Rightarrow> Inr a) of
           Inl e \<Rightarrow> (Inl (rethrow e), b)
         | Inr body \<Rightarrow>
             (case putObject ev b path body of
                (Inl e, b') \<Rightarrow> (Inl (rethrow e), b')
              | (Inr u, b') \<Rightarrow> (Inr u, b')))"

definition unlink :: "env \<Rightarrow> bucket \<Rightarrow> string \<Rightarrow> (error + unit) \<times> bucket" where
  "unlink ev b filepath =
     (case deleteObject ev b filepath of
        (Inl e, b') \<Rightarrow> (Inl (rethrow e), b')
      | (Inr u, b') \<Rightarrow> (Inr u, b'))"

definition subfolder_name :: "string \<Rightarrow> string \<Rightarrow> string" where
  "subfolder_name path p = slice p (int (length path)) (int (length p) - 1)"

definition file_name :: "string \<Rightarrow> string \<Rightarrow> string" where
  "file_name path k =
     (if endsWith k ''/'' then slice k (int (length path)) (int (length k) - 1)
      else slice_from k (int (length path)))"

definition readdir :: "env \<Rightarrow> bucket \<Rightarrow> string \<Rightarrow> error + string list" where
  "readdir ev b filepath =
     (let path = normalizePath filepath
      in case listObjects ev b path ''/'' of
           Inl e \<Rightarrow> Inl (rethrow e)
         | Inr result \<Rightarrow>
             Inr ((case CommonPrefixes result of
                     Some ps \<Rightarrow> map (subfolder_name path) ps
                   | None \<Rightarrow> [])
                  @ (case Contents result of
                       Some cs \<Rightarrow> filter (\<lambda>file. 0 < length file) (map (file_name path) cs)
                     | None \<Rightarrow> [])))"

definition mkdir :: "env \<Rightarrow> bucket \<Rightarrow> string \<Rightarrow> (error + unit) \<times> bucket" where
  "mkdir ev b filepath =
     (let path = normalizePath filepath
      in putObject ev b (if endsWith path ''/'' then path else path @ ''/'') [])"

definition rmdir :: "env \<Rightarrow> bucket \<Rightarrow> string \<Rightarrow> (error + unit) \<times> bucket" where
  "rmdir ev b filepath =
     (let path = normalizePath filepath
      in deleteObject ev b (if endsWith filepath ''/'' then path else path @ ''/''))"

definition seconds :: "nat \<Rightarrow> rat" where
  "seconds ms = of_nat ms / 1000"

definition stat :: "env \<Rightarrow> bucket \<Rightarrow> string \<Rightarrow> error + StatLike" where
  "stat ev b filepath =
     (if endsWith filepath ''/''
      then Inr \<lparr>type = Dir, mode = 0, size' = 0, ino = ''0'', mtimeMs = seconds (now ev)\<rparr>
      else (case headObject ev b filepath of
              Inl e \<Rightarrow> Inl (rethrow e)
            | Inr result \<Rightarrow>
                Inr \<lparr>type = File, mode = 0, size' = ContentLength result, ino = ''0'',
                     mtimeMs = seconds (HeadLastModified result)\<rparr>))"

definition lstat :: "env \<Rightarrow> bucket \<Rightarrow> string \<Rightarrow> error + StatLike" where
  "lstat ev b filepath =
     (if endsWith filepath ''/''
      then Inr \<lparr>type = Dir, mode = 0, size' = 0, ino = ''0'', mtimeMs = seconds (now ev)\<rparr>
      else (case headObject ev b filepath of
              Inl e \<Rightarrow> Inl e
            | Inr result \<Rightarrow>
                Inr \<lparr>type = File, mode = 0, size' = ContentLength result, ino = ''0'',
                     mtimeMs = seconds (HeadLastModified result)\<rparr>))"


subsection \<open>Auxiliary definitions for the statements\<close>

text \<open>
  \<open>sha_shaped\<close> is the language of \<open>SHA_MATCHER\<close> read off the pattern: five groups
  of 4 to 40 hexadecimal digits joined by dashes. It is the specification that the
  matcher is compared with. \<open>mkdir_key\<close> names the key expression of \<open>mkdir\<close>.
  \<open>ascii_encode\<close> and \<open>ascii_decode\<close> are a concrete codec for evaluating examples:
  they agree with UTF-8 on ASCII text.
\<close>

definition hex_group :: "string \<Rightarrow> bool" where
  "hex_group g \<longleftrightarrow> (\<forall>c\<in>set g. is_hex c) \<and> 4 \<le> length g \<and> length g \<le> 40"

definition sha_shaped :: "string \<Rightarrow> bool" where
  "sha_shaped m \<longleftrightarrow>
     (\<exists>g1 g2 g3 g4 g5. hex_group g1 \<and> hex_group g2 \<and> hex_group g3 \<and> hex_group g4
        \<and> hex_group g5 \<and> m = g1 @ ''-'' @ g2 @ ''-'' @ g3 @ ''-'' @ g4 @ ''-'' @ g5)"

definition mkdir_key :: "string \<Rightarrow> string" where
  "mkdir_key filepath =
     (let path = normalizePath filepath
      in if endsWith path ''/'' then path else path @ ''/'')"

definition ascii_encode :: "string \<Rightarrow> bytes" where
  "ascii_encode s = map of_char s"

definition ascii_decode :: "bytes \<Rightarrow> string" where
  "ascii_decode a = map (\<lambda>w. char_of (unat w)) a"

section \<open>Properties\<close>

lemmas string_defs = startsWith_def endsWith_def slice_def slice_from_def clamp_index_def

lemmas matcher_defs = sha_match_at_def hex_group_dash_def hex_tail_def is_hex_def

lemmas store_defs = getObject_def putObject_def deleteObject_def headObject_def
  listObjects_def sort_keys_def list_entry_of_def defined_list_def max_keys_def

lemma endsWith_slash: "endsWith s ''/'' \<longleftrightarrow> s \<noteq> [] \<and> last s = CHR ''/''"
  by (cases s rule: rev_cases) (auto simp add: endsWith_def)

lemma writeFile_success:
  assumes "fst (writeFile encode ev b p d opts) = Inr ()"
  shows "fault ev = None
    \<and> snd (writeFile encode ev b p d opts)
        = AList.update (normalizePath p)
            \<lparr>Body = (case d of Text s \<Rightarrow> encode s | Bytes a \<Rightarrow> a), LastModified = now ev\<rparr> b"
  using assms
  by (auto simp add: writeFile_def putObject_def Let_def split: data.splits if_splits option.splits)

subsection \<open>Facts about the string primitives and the matcher\<close>

text \<open>
  The matcher only reads hexadecimal digits and dashes: an attempt at a start position
  depends on the text up to the next character that is neither, and a match is
  reproduced when it is attempted on the matched text alone.
\<close>

lemma slice_from_1: "slice_from s 1 = drop 1 s"
  by (cases s) (simp_all add: slice_from_def clamp_index_def)

lemma slice_0: "0 \<le> n \<Longrightarrow> slice s 0 n = take (nat n) s"
  by (simp add: slice_def clamp_index_def min_def)

lemma hex_group_dash_local:
  assumes "\<not> is_hex c" and "c \<noteq> CHR ''-''"
  shows "hex_group_dash (xs @ c # ys)
           = map_option (\<lambda>(g, r). (g, r @ c # ys)) (hex_group_dash xs)"
proof (cases "\<forall>x\<in>set xs. is_hex x")
  case True
  have a: "takeWhile is_hex (xs @ c # ys) = xs"
    using True assms(1) by (simp add: takeWhile_append2)
  have b: "dropWhile is_hex (xs @ c # ys) = c # ys"
    using True assms(1) by (simp add: dropWhile_append2)
  have d: "dropWhile is_hex xs = []"
    using True by simp
  show ?thesis
    using assms(2) by (simp add: hex_group_dash_def startsWith_def a b d)
next
  case False
  then obtain x where x: "x \<in> set xs" "\<not> is_hex x" by blast
  then have t: "takeWhile is_hex (xs @ c # ys) = takeWhile is_hex xs"
    and d: "dropWhile is_hex (xs @ c # ys) = dropWhile is_hex xs @ c # ys"
    by (simp_all add: takeWhile_append1 dropWhile_append1)
  from x have "dropWhile is_hex xs \<noteq> []"
    by (auto simp add: dropWhile_eq_Nil_conv)
  then obtain y zs where n: "dropWhile is_hex xs = y # zs"
    by (cases "dropWhile is_hex xs") auto
  show ?thesis
    by (simp add: hex_group_dash_def t d n startsWith_def Let_def)
qed

lemma hex_tail_local:
  assumes "\<not> is_hex c"
  shows "hex_tail (xs @ c # ys) = hex_tail xs"
proof -
  have "takeWhile is_hex (xs @ c # ys) = takeWhile is_hex xs"
    using assms by (induction xs) simp_all
  then show ?thesis by (simp add: hex_tail_def)
qed

lemma sha_match_at_local:
  assumes "\<not> is_hex c" and "c \<noteq> CHR ''-''"
  shows "sha_match_at (xs @ c # ys) = sha_match_at xs"
  by (auto simp add: sha_match_at_def hex_group_dash_local [OF assms] hex_tail_local [OF assms(1)]
      split: option.splits)

lemma sha_match_at_Nil: "sha_match_at [] = None"
  by (simp add: sha_match_at_def hex_group_dash_def)

lemma exec_local:
  assumes "\<not> is_hex c" and "c \<noteq> CHR ''-''"
  shows "SHA_MATCHER_exec (xs @ c # ys)
           = (case SHA_MATCHER_exec xs of Some m \<Rightarrow> Some m | None \<Rightarrow> SHA_MATCHER_exec ys)"
proof (induction xs)
  case Nil
  have "sha_match_at (c # ys) = None"
    using sha_match_at_local [OF assms, of "[]" ys] by (simp add: sha_match_at_Nil)
  then show ?case by (simp add: sha_match_at_Nil)
next
  case (Cons x xs)
  have "sha_match_at (x # xs @ c # ys) = sha_match_at (x # xs)"
    using sha_match_at_local [OF assms, of "x # xs" ys] by simp
  with Cons show ?case by (simp split: option.splits)
qed

lemma exec_skip:
  assumes "\<not> is_hex c" and "c \<noteq> CHR ''-''"
  shows "SHA_MATCHER_exec (c # ys) = SHA_MATCHER_exec ys"
  using exec_local [OF assms, of "[]" ys] by (simp add: sha_match_at_Nil)


lemma not_hex_dash: "\<not> is_hex (CHR ''-'')"
  by (simp add: is_hex_def)

lemma hex_group_dash_Some:
  assumes "hex_group_dash s = Some (g, r)"
  shows "s = g @ r" and "\<forall>c\<in>set g. is_hex c \<or> c = CHR ''-''" and "5 \<le> length g"
    and "hex_group_dash (g @ r') = Some (g, r')"
proof -
  let ?run = "takeWhile is_hex s"
  from assms have c: "4 \<le> length ?run" "length ?run \<le> 40" "startsWith (dropWhile is_hex s) ''-''"
    and g: "g = ?run @ ''-''" and r: "r = drop 1 (dropWhile is_hex s)"
    by (auto simp add: hex_group_dash_def Let_def split: if_splits)
  from c(3) obtain zs where d: "dropWhile is_hex s = CHR ''-'' # zs"
    by (auto simp add: startsWith_def prefix_def)
  have "s = ?run @ dropWhile is_hex s" by simp
  then show "s = g @ r" by (simp add: g r d)
  show "\<forall>c\<in>set g. is_hex c \<or> c = CHR ''-''"
    by (auto simp add: g dest: set_takeWhileD)
  show "5 \<le> length g" using c(1) by (simp add: g)
  have h: "\<forall>x\<in>set ?run. is_hex x" by (auto dest: set_takeWhileD)
  have t: "takeWhile is_hex (?run @ CHR ''-'' # r') = ?run"
    using h not_hex_dash by (simp add: takeWhile_append2)
  have e: "dropWhile is_hex (?run @ CHR ''-'' # r') = CHR ''-'' # r'"
    using h not_hex_dash by (simp add: dropWhile_append2)
  show "hex_group_dash (g @ r') = Some (g, r')"
    using c(1,2) by (simp add: g hex_group_dash_def t e startsWith_def Let_def)
qed

lemma hex_tail_Some:
  assumes "hex_tail s = Some g"
  shows "\<forall>c\<in>set g. is_hex c" and "4 \<le> length g" and "hex_tail g = Some g"
proof -
  from assms have g: "g = take 40 (takeWhile is_hex s)" and l: "4 \<le> length g"
    by (auto simp add: hex_tail_def Let_def split: if_splits)
  show h: "\<forall>c\<in>set g. is_hex c"
    by (auto simp add: g dest: in_set_takeD set_takeWhileD)
  show "4 \<le> length g" by (rule l)
  have tw: "takeWhile is_hex g = g" using h by simp
  have "length g \<le> 40" by (simp add: g)
  with l show "hex_tail g = Some g"
    unfolding hex_tail_def Let_def tw by simp
qed

lemma sha_match_at_Some:
  assumes "sha_match_at s = Some m"
  shows "sha_match_at m = Some m" and "\<forall>c\<in>set m. is_hex c \<or> c = CHR ''-''"
    and "24 \<le> length m" and "length m \<le> length s"
proof -
  from assms obtain g1 r1 g2 r2 g3 r3 g4 r4 g5 where
    h1: "hex_group_dash s = Some (g1, r1)" and h2: "hex_group_dash r1 = Some (g2, r2)"
    and h3: "hex_group_dash r2 = Some (g3, r3)" and h4: "hex_group_dash r3 = Some (g4, r4)"
    and h5: "hex_tail r4 = Some g5" and m: "m = g1 @ g2 @ g3 @ g4 @ g5"
    by (auto simp add: sha_match_at_def split: option.splits)
  show "sha_match_at m = Some m"
    by (simp add: sha_match_at_def m hex_group_dash_Some(4) [OF h1] hex_group_dash_Some(4) [OF h2]
        hex_group_dash_Some(4) [OF h3] hex_group_dash_Some(4) [OF h4] hex_tail_Some(3) [OF h5])
  show "\<forall>c\<in>set m. is_hex c \<or> c = CHR ''-''"
    using hex_group_dash_Some(2) [OF h1] hex_group_dash_Some(2) [OF h2]
      hex_group_dash_Some(2) [OF h3] hex_group_dash_Some(2) [OF h4] hex_tail_Some(1) [OF h5]
    by (auto simp add: m)
  show "24 \<le> length m"
    using hex_group_dash_Some(3) [OF h1] hex_group_dash_Some(3) [OF h2]
      hex_group_dash_Some(3) [OF h3] hex_group_dash_Some(3) [OF h4] hex_tail_Some(2) [OF h5]
    by (simp add: m)
  have "takeWhile is_hex r4 = g5 @ drop 40 (takeWhile is_hex r4)"
    using h5 by (auto simp add: hex_tail_def Let_def split: if_splits)
  then have "length g5 \<le> length (takeWhile is_hex r4)"
    by (metis le_add1 length_append)
  also have "\<dots> \<le> length r4" by (rule length_takeWhile_le)
  finally have "length g5 \<le> length r4" .
  then show "length m \<le> length s"
    using hex_group_dash_Some(1) [OF h1] hex_group_dash_Some(1) [OF h2]
      hex_group_dash_Some(1) [OF h3] hex_group_dash_Some(1) [OF h4]
    by (simp add: m)
qed

lemma exec_Some:
  "SHA_MATCHER_exec s = Some m \<Longrightarrow>
     sha_match_at m = Some m \<and> (\<forall>c\<in>set m. is_hex c \<or> c = CHR ''-'')
     \<and> 24 \<le> length m \<and> length m \<le> length s"
proof (induction s)
  case Nil
  then show ?case by (simp add: sha_match_at_Nil)
next
  case (Cons c cs)
  show ?case
  proof (cases "sha_match_at (c # cs)")
    case None
    with Cons show ?thesis by simp
  next
    case (Some m')
    with Cons.prems have "m' = m" by simp
    with Some sha_match_at_Some [of "c # cs" m] show ?thesis by simp
  qed
qed

lemma exec_match: "sha_match_at m = Some m \<Longrightarrow> SHA_MATCHER_exec m = Some m"
  by (cases m) simp_all

lemma exec_short: "length s < 24 \<Longrightarrow> SHA_MATCHER_exec s = None"
  using exec_Some [of s] by (cases "SHA_MATCHER_exec s") auto


lemma includes_str_Nil: "includes_str s []"
  by (cases s) simp_all

lemma includes_str_set: "includes_str s w \<Longrightarrow> set w \<subseteq> set s"
proof (induction s)
  case Nil
  then show ?case by simp
next
  case (Cons c cs)
  from Cons.prems have "prefix w (c # cs) \<or> includes_str cs w" by simp
  then show ?case
  proof
    assume "prefix w (c # cs)"
    then show ?thesis by (rule set_mono_prefix)
  next
    assume "includes_str cs w"
    with Cons.IH show ?thesis by auto
  qed
qed

lemma includes_str_length: "includes_str s w \<Longrightarrow> length w \<le> length s"
  by (induction s) (auto dest: prefix_length_le)

lemma prefix_before: "c \<notin> set w \<Longrightarrow> prefix w (xs @ c # ys) \<longleftrightarrow> prefix w xs"
  by (auto simp add: prefix_append prefix_Cons)

lemma includes_str_split:
  "c \<notin> set w \<Longrightarrow> includes_str (xs @ c # ys) w \<longleftrightarrow> includes_str xs w \<or> includes_str ys w"
proof (induction xs)
  case Nil
  then show ?case
    using prefix_before [of c w "[]" ys] by (auto simp add: includes_str_Nil)
next
  case (Cons x xs)
  then show ?case
    using prefix_before [of c w "x # xs" ys] by auto
qed

lemma indexOf_bounds: "- 1 \<le> indexOf s w"
  by (induction s) (simp_all add: Let_def)

lemma indexOf_includes: "0 \<le> indexOf s w \<longleftrightarrow> includes_str s w"
  by (induction s) (auto simp add: Let_def)

lemma indexOf_absent: "\<not> includes_str s w \<Longrightarrow> indexOf s w = - 1"
  using indexOf_bounds [of s w] indexOf_includes [of s w] by simp

lemma indexOf_split:
  "indexOf s w = int i \<Longrightarrow> s = take i s @ w @ drop (i + length w) s"
proof (induction s arbitrary: i)
  case Nil
  then show ?case by (simp split: if_splits)
next
  case (Cons c cs)
  show ?case
  proof (cases "prefix w (c # cs)")
    case True
    with Cons.prems have "i = 0" by simp
    with True show ?thesis by (auto simp add: prefix_def)
  next
    case False
    with Cons.prems have r: "0 \<le> indexOf cs w" and i: "int i = indexOf cs w + 1"
      by (auto simp add: Let_def split: if_splits)
    define j where "j = nat (indexOf cs w)"
    from r i have j: "i = Suc j" "indexOf cs w = int j"
      by (simp_all add: j_def)
    from Cons.IH [OF j(2)] show ?thesis by (simp add: j(1))
  qed
qed

lemma indexOf_length: "indexOf s w = int i \<Longrightarrow> i + length w \<le> length s"
proof (induction s arbitrary: i)
  case Nil
  then show ?case by (simp split: if_splits)
next
  case (Cons c cs)
  show ?case
  proof (cases "prefix w (c # cs)")
    case True
    with Cons.prems have "i = 0" by simp
    with True show ?thesis by (auto dest: prefix_length_le)
  next
    case False
    with Cons.prems have r: "0 \<le> indexOf cs w" and i: "int i = indexOf cs w + 1"
      by (auto simp add: Let_def split: if_splits)
    define j where "j = nat (indexOf cs w)"
    from r i have j: "i = Suc j" "indexOf cs w = int j"
      by (simp_all add: j_def)
    from Cons.IH [OF j(2)] show ?thesis by (simp add: j(1))
  qed
qed

lemma indexOf_prefix_stable:
  "indexOf s w = int i \<Longrightarrow> indexOf (take (i + length w) s @ zs) w = int i"
proof (induction s arbitrary: i)
  case Nil
  then show ?case by (cases zs) (simp_all split: if_splits)
next
  case (Cons c cs)
  show ?case
  proof (cases "prefix w (c # cs)")
    case True
    with Cons.prems have i: "i = 0" by simp
    from True have "take (length w) (c # cs) = w"
      by (auto simp add: prefix_def)
    then have "take (i + length w) (c # cs) @ zs = w @ zs" by (simp add: i)
    moreover have "indexOf (w @ zs) w = 0"
    proof (cases "w @ zs")
      case Nil
      then show ?thesis by simp
    next
      case (Cons a list)
      have "prefix w (w @ zs)" by simp
      then have "prefix w (a # list)" by (simp only: Cons)
      then show ?thesis by (simp add: Cons)
    qed
    ultimately show ?thesis by (simp add: i)
  next
    case False
    with Cons.prems have r: "0 \<le> indexOf cs w" and i: "int i = indexOf cs w + 1"
      by (auto simp add: Let_def split: if_splits)
    define j where "j = nat (indexOf cs w)"
    from r i have j: "i = Suc j" "indexOf cs w = int j"
      by (simp_all add: j_def)
    have len: "j + length w \<le> length cs"
      by (rule indexOf_length [OF j(2)])
    have "\<not> prefix w (c # take (j + length w) cs @ zs)"
    proof
      assume "prefix w (c # take (j + length w) cs @ zs)"
      then have "take (length w) (c # take (j + length w) cs @ zs) = w"
        by (auto simp add: prefix_def)
      moreover have "take (length w) (c # take (j + length w) cs @ zs) = take (length w) (c # cs)"
        using len by (cases "length w") (simp_all add: min_def)
      ultimately have "prefix w (c # cs)"
        by (metis take_is_prefix)
      with False show False by simp
    qed
    with Cons.IH [OF j(2)] show ?thesis
      by (simp add: j Let_def)
  qed
qed


lemma token_no_objects:
  assumes "\<forall>c\<in>set m. is_hex c \<or> c = CHR ''-''"
  shows "\<not> includes_str m ''objects''"
proof
  assume "includes_str m ''objects''"
  then have "set ''objects'' \<subseteq> set m" by (rule includes_str_set)
  then have "CHR ''o'' \<in> set m" by simp
  with assms have "is_hex (CHR ''o'') \<or> CHR ''o'' = CHR ''-''" by blast
  then show False by (simp add: is_hex_def)
qed

lemma token_no_marker:
  assumes "\<forall>c\<in>set m. is_hex c \<or> c = CHR ''-''"
  shows "\<not> includes_str m ''.git/''"
proof
  assume "includes_str m ''.git/''"
  then have "set ''.git/'' \<subseteq> set m" by (rule includes_str_set)
  then have "CHR ''.'' \<in> set m" by simp
  with assms have "is_hex (CHR ''.'') \<or> CHR ''.'' = CHR ''-''" by blast
  then show False by (simp add: is_hex_def)
qed

lemma exec_efs:
  "SHA_MATCHER_exec (CHR ''e'' # CHR ''f'' # CHR ''s'' # CHR ''/'' # CHR ''h'' # CHR ''e''
      # CHR ''a'' # CHR ''d'' # CHR ''s'' # CHR ''/'' # ys) = SHA_MATCHER_exec ys"
proof -
  have n: "SHA_MATCHER_exec ''ef'' = None" "SHA_MATCHER_exec ''ead'' = None"
    by (simp_all add: exec_short del: SHA_MATCHER_exec.simps)
  have "SHA_MATCHER_exec (''ef'' @ CHR ''s'' # (''/heads/'' @ ys))
      = SHA_MATCHER_exec (''/heads/'' @ ys)"
    by (subst exec_local) (simp_all add: is_hex_def n del: SHA_MATCHER_exec.simps)
  also have "\<dots> = SHA_MATCHER_exec (''ead'' @ CHR ''s'' # (''/'' @ ys))"
    using exec_skip [of "CHR ''/''" "''heads/'' @ ys"] exec_skip [of "CHR ''h''" "''eads/'' @ ys"]
    by (simp add: is_hex_def del: SHA_MATCHER_exec.simps)
  also have "\<dots> = SHA_MATCHER_exec (''/'' @ ys)"
    by (subst exec_local) (simp_all add: is_hex_def n del: SHA_MATCHER_exec.simps)
  also have "\<dots> = SHA_MATCHER_exec ys"
    using exec_skip [of "CHR ''/''" ys] by (simp add: is_hex_def del: SHA_MATCHER_exec.simps)
  finally show ?thesis by (simp del: SHA_MATCHER_exec.simps)
qed

lemma exec_refs:
  "SHA_MATCHER_exec (CHR ''r'' # CHR ''e'' # CHR ''f'' # CHR ''s'' # CHR ''/'' # CHR ''h''
      # CHR ''e'' # CHR ''a'' # CHR ''d'' # CHR ''s'' # CHR ''/'' # ys) = SHA_MATCHER_exec ys"
  using exec_skip [of "CHR ''r''" "''efs/heads/'' @ ys"] exec_efs [of ys]
  by (simp add: is_hex_def del: SHA_MATCHER_exec.simps)

lemma exec_git:
  "SHA_MATCHER_exec (CHR ''g'' # CHR ''i'' # CHR ''t'' # CHR ''/'' # ys) = SHA_MATCHER_exec ys"
  using exec_skip [of "CHR ''g''" "''it/'' @ ys"] exec_skip [of "CHR ''i''" "''t/'' @ ys"]
    exec_skip [of "CHR ''t''" "''/'' @ ys"] exec_skip [of "CHR ''/''" ys]
  by (simp add: is_hex_def del: SHA_MATCHER_exec.simps)

lemma rewritten_fixed:
  assumes e: "SHA_MATCHER_exec q = Some sha" and o: "\<not> includes_str q ''objects''"
  defines "start \<equiv> take (nat (indexOf q ''.git/'' + 5)) q"
  defines "q' \<equiv> start @ ''refs/heads/'' @ sha"
  shows "SHA_MATCHER_exec q' = Some sha" and "\<not> includes_str q' ''objects''"
    and "take (nat (indexOf q' ''.git/'' + 5)) q' = start"
proof -
  from exec_Some [OF e] have m: "sha_match_at sha = Some sha"
    and tok: "\<forall>c\<in>set sha. is_hex c \<or> c = CHR ''-''" and len: "24 \<le> length q"
    by auto
  have es: "SHA_MATCHER_exec sha = Some sha" by (rule exec_match [OF m])
  have res: "SHA_MATCHER_exec q' = Some sha \<and> \<not> includes_str q' ''objects''
      \<and> take (nat (indexOf q' ''.git/'' + 5)) q' = start"
  proof (cases "includes_str q ''.git/''")
    case False
    then have s4: "start = take 4 q"
      by (simp add: start_def indexOf_absent)
    have q': "q' = take 4 q @ CHR ''r'' # (''efs/heads/'' @ sha)"
      by (simp add: q'_def s4)
    have "SHA_MATCHER_exec (take 4 q) = None"
      by (rule exec_short) simp
    then have 1: "SHA_MATCHER_exec q' = Some sha"
      unfolding q'
      by (subst exec_local) (simp_all add: is_hex_def exec_efs es del: SHA_MATCHER_exec.simps)
    have "\<not> includes_str (take 4 q) ''objects''"
      by (auto dest: includes_str_length)
    moreover have "\<not> includes_str (''efs/heads/'' @ sha) ''objects''"
      using token_no_objects [OF tok] by simp
    ultimately have 2: "\<not> includes_str q' ''objects''"
      unfolding q' by (simp add: includes_str_split)
    have "\<not> includes_str (take 4 q) ''.git/''"
      by (auto dest: includes_str_length)
    moreover have "\<not> includes_str (''efs/heads/'' @ sha) ''.git/''"
      using token_no_marker [OF tok] by simp
    ultimately have "\<not> includes_str q' ''.git/''"
      unfolding q' by (simp add: includes_str_split)
    then have "indexOf q' ''.git/'' = - 1" by (rule indexOf_absent)
    moreover have "take 4 q' = take 4 q"
      unfolding q' using len by simp
    ultimately have 3: "take (nat (indexOf q' ''.git/'' + 5)) q' = start"
      by (simp add: s4)
    from 1 2 3 show ?thesis by simp
  next
    case True
    define i where "i = nat (indexOf q ''.git/'')"
    from True have ix: "indexOf q ''.git/'' = int i"
      by (simp add: i_def indexOf_includes)
    have st: "start = take (i + 5) q"
      by (simp add: start_def ix nat_add_distrib)
    have li: "i + 5 \<le> length q"
      using indexOf_length [OF ix] by simp
    define pre where "pre = take i q"
    define post where "post = drop (i + 5) q"
    have q: "q = pre @ CHR ''.'' # (''git/'' @ post)"
      using indexOf_split [OF ix] by (simp add: pre_def post_def eval_nat_numeral)
    have lp: "length pre = i"
      using li by (simp add: pre_def)
    have sp: "start = pre @ ''.git/''"
      unfolding st by (subst q) (simp add: lp)
    have q': "q' = pre @ CHR ''.'' # (''git/'' @ ''refs/heads/'' @ sha)"
      by (simp add: q'_def sp)
    have eq: "SHA_MATCHER_exec q
        = (case SHA_MATCHER_exec pre of Some m \<Rightarrow> Some m | None \<Rightarrow> SHA_MATCHER_exec post)"
      by (subst q, subst exec_local)
        (simp_all add: is_hex_def exec_git del: SHA_MATCHER_exec.simps split: option.splits)
    have eq': "SHA_MATCHER_exec q'
        = (case SHA_MATCHER_exec pre of Some m \<Rightarrow> Some m | None \<Rightarrow> Some sha)"
      unfolding q'
      by (subst exec_local)
        (simp_all add: is_hex_def exec_git exec_refs es del: SHA_MATCHER_exec.simps
          split: option.splits)
    have 1: "SHA_MATCHER_exec q' = Some sha"
      using e eq eq' by (cases "SHA_MATCHER_exec pre") simp_all
    have "\<not> includes_str pre ''objects''"
      using o by (subst (asm) q) (simp add: includes_str_split)
    moreover have "\<not> includes_str (''git/'' @ ''refs/heads/'' @ sha) ''objects''"
      using token_no_objects [OF tok] by simp
    ultimately have 2: "\<not> includes_str q' ''objects''"
      unfolding q' by (simp add: includes_str_split)
    have "indexOf q' ''.git/'' = int i"
      using indexOf_prefix_stable [OF ix, of "''refs/heads/'' @ sha"]
      by (simp add: q'_def st eval_nat_numeral)
    moreover have "take (i + 5) q' = start"
      using li by (simp add: q'_def st)
    ultimately have 3: "take (nat (indexOf q' ''.git/'' + 5)) q' = start"
      by (simp add: nat_add_distrib)
    from 1 2 3 show ?thesis by simp
  qed
  from res show "SHA_MATCHER_exec q' = Some sha" and "\<not> includes_str q' ''objects''"
    and "take (nat (indexOf q' ''.git/'' + 5)) q' = start"
    by simp_all
qed

lemma normalizePath_unfold:
  assumes "\<not> startsWith q ''/''"
  shows "normalizePath q =
     (case SHA_MATCHER_exec q of
        Some sha \<Rightarrow>
          if \<not> includes_str q ''objects''
          then take (nat (indexOf q ''.git/'' + 5)) q @ ''refs/heads/'' @ sha
          else q
      | None \<Rightarrow> q)"
proof -
  have "0 \<le> indexOf q ''.git/'' + 5"
    using indexOf_bounds [of q "''.git/''"] by simp
  then show ?thesis
    using assms by (simp add: normalizePath_def slice_0 split: option.splits)
qed

lemma normalizePath_strip:
  assumes "\<not> startsWith q ''/''"
  shows "normalizePath (CHR ''/'' # q) = normalizePath q"
  using assms
  by (simp add: normalizePath_def slice_from_1 startsWith_def split: option.splits)


subsection \<open>The matcher against the pattern\<close>

text \<open>
  \<open>sha_match_at\<close> succeeds exactly on the texts that begin with a word of the pattern's
  language, and answers the longest such word; \<open>SHA_MATCHER_exec\<close> answers the match
  at the leftmost position where one exists, and nothing when the text contains no word
  of the language.
\<close>

lemma hex_group_dash_run:
  assumes "hex_group g"
  shows "hex_group_dash (g @ CHR ''-'' # r) = Some (g @ ''-'', r)"
proof -
  from assms have h: "\<forall>x\<in>set g. is_hex x" and l: "4 \<le> length g" "length g \<le> 40"
    by (simp_all add: hex_group_def)
  have t: "takeWhile is_hex (g @ CHR ''-'' # r) = g"
    using h not_hex_dash by (simp add: takeWhile_append2)
  have d: "dropWhile is_hex (g @ CHR ''-'' # r) = CHR ''-'' # r"
    using h not_hex_dash by (simp add: dropWhile_append2)
  show ?thesis
    using l by (simp add: hex_group_dash_def t d startsWith_def Let_def)
qed

lemma hex_group_dash_group:
  assumes "hex_group_dash s = Some (g, r)"
  shows "\<exists>run. hex_group run \<and> g = run @ ''-''"
  using assms
  by (auto simp add: hex_group_dash_def hex_group_def Let_def split: if_splits
      dest: set_takeWhileD)

lemma hex_tail_prefix:
  assumes "hex_tail s = Some g"
  shows "prefix g s"
proof -
  from assms have "g = take 40 (takeWhile is_hex s)"
    by (auto simp add: hex_tail_def Let_def split: if_splits)
  moreover have "prefix (take 40 (takeWhile is_hex s)) (takeWhile is_hex s)"
    by (rule take_is_prefix)
  moreover have "prefix (takeWhile is_hex s) s"
    by (metis prefixI takeWhile_dropWhile_id)
  ultimately show ?thesis by (auto intro: prefix_order.trans)
qed

lemma sha_match_at_sound:
  assumes "sha_match_at s = Some m"
  shows "sha_shaped m \<and> prefix m s"
proof -
  from assms obtain g1 r1 g2 r2 g3 r3 g4 r4 g5 where
    h1: "hex_group_dash s = Some (g1, r1)" and h2: "hex_group_dash r1 = Some (g2, r2)"
    and h3: "hex_group_dash r2 = Some (g3, r3)" and h4: "hex_group_dash r3 = Some (g4, r4)"
    and h5: "hex_tail r4 = Some g5" and m: "m = g1 @ g2 @ g3 @ g4 @ g5"
    by (auto simp add: sha_match_at_def split: option.splits)
  from hex_group_dash_group [OF h1] hex_group_dash_group [OF h2]
    hex_group_dash_group [OF h3] hex_group_dash_group [OF h4]
  obtain a b c d where g: "hex_group a" "g1 = a @ ''-''" "hex_group b" "g2 = b @ ''-''"
    "hex_group c" "g3 = c @ ''-''" "hex_group d" "g4 = d @ ''-''"
    by blast
  have g5: "hex_group g5"
    using hex_tail_Some [OF h5] h5
    by (auto simp add: hex_group_def hex_tail_def Let_def split: if_splits)
  have "m = a @ ''-'' @ b @ ''-'' @ c @ ''-'' @ d @ ''-'' @ g5"
    using g m by simp
  with g g5 have "sha_shaped m"
    unfolding sha_shaped_def by blast
  moreover have "s = g1 @ g2 @ g3 @ g4 @ r4"
    using hex_group_dash_Some(1) [OF h1] hex_group_dash_Some(1) [OF h2]
      hex_group_dash_Some(1) [OF h3] hex_group_dash_Some(1) [OF h4] by simp
  then have "prefix m s"
    using hex_tail_prefix [OF h5] by (simp add: m)
  ultimately show ?thesis by simp
qed

lemma sha_match_at_complete:
  assumes "sha_shaped m" and "prefix m s"
  shows "\<exists>m'. sha_match_at s = Some m' \<and> prefix m m'"
proof -
  from assms(1) obtain g1 g2 g3 g4 g5 where
    g: "hex_group g1" "hex_group g2" "hex_group g3" "hex_group g4" "hex_group g5"
    and m: "m = g1 @ ''-'' @ g2 @ ''-'' @ g3 @ ''-'' @ g4 @ ''-'' @ g5"
    by (auto simp add: sha_shaped_def)
  from assms(2) obtain r where s: "s = m @ r" by (auto simp add: prefix_def)
  have h5: "\<forall>x\<in>set g5. is_hex x" "4 \<le> length g5" "length g5 \<le> 40"
    using g(5) by (simp_all add: hex_group_def)
  have tw: "takeWhile is_hex (g5 @ r) = g5 @ takeWhile is_hex r"
    using h5(1) by (simp add: takeWhile_append2)
  have t: "hex_tail (g5 @ r) = Some (g5 @ take (40 - length g5) (takeWhile is_hex r))"
    using h5(2,3) by (simp add: hex_tail_def tw)
  have "sha_match_at s
      = Some (g1 @ ''-'' @ g2 @ ''-'' @ g3 @ ''-'' @ g4 @ ''-'' @ g5
              @ take (40 - length g5) (takeWhile is_hex r))"
    using t by (simp add: sha_match_at_def s m hex_group_dash_run g)
  then show ?thesis by (simp add: m)
qed

lemma sha_match_at_longest:
  assumes "sha_match_at s = Some m" and "sha_shaped m'" and "prefix m' s"
  shows "prefix m' m"
  using sha_match_at_complete [OF assms(2,3)] assms(1) by auto

lemma sha_match_at_None_iff:
  "sha_match_at s = None \<longleftrightarrow> (\<forall>m. sha_shaped m \<longrightarrow> \<not> prefix m s)"
  using sha_match_at_sound [of s] sha_match_at_complete [of _ s]
  by (cases "sha_match_at s") auto

lemma exec_None_iff:
  "SHA_MATCHER_exec s = None \<longleftrightarrow> (\<forall>m. sha_shaped m \<longrightarrow> \<not> sublist m s)"
proof (induction s)
  case Nil
  show ?case
    using sha_match_at_None_iff [of "[]"] by (auto simp add: sha_match_at_Nil)
next
  case (Cons c cs)
  have "SHA_MATCHER_exec (c # cs) = None
      \<longleftrightarrow> sha_match_at (c # cs) = None \<and> SHA_MATCHER_exec cs = None"
    by (simp split: option.splits)
  also have "\<dots> \<longleftrightarrow> (\<forall>m. sha_shaped m \<longrightarrow> \<not> prefix m (c # cs) \<and> \<not> sublist m cs)"
    using Cons.IH sha_match_at_None_iff [of "c # cs"] by auto
  also have "\<dots> \<longleftrightarrow> (\<forall>m. sha_shaped m \<longrightarrow> \<not> sublist m (c # cs))"
    by (simp add: sublist_Cons_right)
  finally show ?case .
qed

lemma exec_leftmost_longest:
  "SHA_MATCHER_exec s = Some m \<Longrightarrow>
     \<exists>pre post. s = pre @ m @ post \<and> sha_shaped m
       \<and> (\<forall>m'. sha_shaped m' \<and> prefix m' (m @ post) \<longrightarrow> prefix m' m)
       \<and> (\<forall>pre' m' post'. sha_shaped m' \<and> s = pre' @ m' @ post' \<longrightarrow> length pre \<le> length pre')"
proof (induction s)
  case Nil
  then show ?case by (simp add: sha_match_at_Nil)
next
  case (Cons c cs)
  show ?case
  proof (cases "sha_match_at (c # cs)")
    case (Some m0)
    with Cons.prems have m0: "sha_match_at (c # cs) = Some m" by simp
    from sha_match_at_sound [OF m0] obtain post where
      p: "c # cs = m @ post" and sh: "sha_shaped m"
      by (auto simp add: prefix_def)
    have "\<forall>m'. sha_shaped m' \<and> prefix m' (m @ post) \<longrightarrow> prefix m' m"
      using sha_match_at_longest [OF m0] p by auto
    with p sh show ?thesis
      by (intro exI [of _ "[]"] exI [of _ post]) simp
  next
    case None
    with Cons.prems have "SHA_MATCHER_exec cs = Some m" by simp
    from Cons.IH [OF this] obtain pre post where
      s: "cs = pre @ m @ post" and sh: "sha_shaped m"
      and lg: "\<forall>m'. sha_shaped m' \<and> prefix m' (m @ post) \<longrightarrow> prefix m' m"
      and lm: "\<forall>pre' m' post'. sha_shaped m' \<and> cs = pre' @ m' @ post' \<longrightarrow> length pre \<le> length pre'"
      by blast
    have "\<forall>pre' m' post'. sha_shaped m' \<and> c # cs = pre' @ m' @ post'
        \<longrightarrow> length (c # pre) \<le> length pre'"
    proof (intro allI impI)
      fix pre' m' post'
      assume a: "sha_shaped m' \<and> c # cs = pre' @ m' @ post'"
      show "length (c # pre) \<le> length pre'"
      proof (cases pre')
        case Nil
        with a have "prefix m' (c # cs)" by simp
        with a None show ?thesis by (simp add: sha_match_at_None_iff)
      next
        case (Cons x xs)
        with a have "cs = xs @ m' @ post'" by simp
        with a lm have "length pre \<le> length xs" by blast
        with Cons show ?thesis by simp
      qed
    qed
    with s sh lg show ?thesis
      by (intro exI [of _ "c # pre"] exI [of _ post]) simp
  qed
qed


subsection \<open>Unfolding \<open>normalizePath\<close>\<close>

text \<open>
  With the marker present, the rewritten path is the text before the first \<open>.git/\<close>,
  the marker, \<open>refs/heads/\<close> and the match. A path that begins with two separators
  is not a fixed point of one normalization.
\<close>

lemma normalizePath_with_marker:
  assumes "\<not> startsWith q ''/''" and "SHA_MATCHER_exec q = Some sha"
    and "\<not> includes_str q ''objects''" and "indexOf q ''.git/'' = int i"
  shows "normalizePath q = take i q @ ''.git/'' @ ''refs/heads/'' @ sha"
proof -
  define pre where "pre = take i q"
  define post where "post = drop (i + 5) q"
  have q: "q = pre @ ''.git/'' @ post"
    using indexOf_split [OF assms(4)] by (simp add: pre_def post_def eval_nat_numeral)
  have lp: "length pre = i"
    using indexOf_length [OF assms(4)] by (simp add: pre_def)
  have "take (i + 5) q = pre @ ''.git/''"
    by (subst q) (simp add: lp)
  then show ?thesis
    using assms(2,3)
    by (simp add: normalizePath_unfold [OF assms(1)] assms(4) nat_add_distrib pre_def)
qed


lemma normalizePath_slash:
  "normalizePath (CHR ''/'' # x) =
     (case SHA_MATCHER_exec x of
        Some sha \<Rightarrow>
          if \<not> includes_str x ''objects''
          then take (nat (indexOf x ''.git/'' + 5)) x @ ''refs/heads/'' @ sha
          else x
      | None \<Rightarrow> x)"
proof -
  have "0 \<le> indexOf x ''.git/'' + 5"
    using indexOf_bounds [of x "''.git/''"] by simp
  then show ?thesis
    by (simp add: normalizePath_def slice_0 slice_from_1 startsWith_def split: option.splits)
qed

lemma normalizePath_two_separators:
  assumes "startsWith p ''//''"
  shows "normalizePath (normalizePath p) \<noteq> normalizePath p"
proof -
  from assms obtain t where p: "p = CHR ''/'' # CHR ''/'' # t"
    by (auto simp add: startsWith_def prefix_def)
  define q where "q = CHR ''/'' # t"
  have eq: "SHA_MATCHER_exec q = SHA_MATCHER_exec t"
    unfolding q_def by (rule exec_skip) (simp_all add: is_hex_def)
  have oq: "includes_str q ''objects'' \<longleftrightarrow> includes_str t ''objects''"
    by (simp add: q_def)
  show ?thesis
  proof (cases "SHA_MATCHER_exec t")
    case None
    then have "normalizePath p = q" "normalizePath q = t"
      by (simp_all add: p normalizePath_slash eq q_def [symmetric]) (simp add: q_def normalizePath_slash)
    then show ?thesis by (simp add: q_def)
  next
    case (Some sha)
    show ?thesis
    proof (cases "includes_str t ''objects''")
      case True
      with Some have "normalizePath p = q" "normalizePath q = t"
        by (simp_all add: p normalizePath_slash eq oq q_def [symmetric]) (simp add: q_def normalizePath_slash)
      then show ?thesis by (simp add: q_def)
    next
      case False
      from exec_Some [OF Some] have tok: "\<forall>c\<in>set sha. is_hex c \<or> c = CHR ''-''"
        and m: "sha_match_at sha = Some sha" and len: "24 \<le> length t"
        by auto
      have es: "SHA_MATCHER_exec sha = Some sha" by (rule exec_match [OF m])
      have np: "normalizePath p = take (nat (indexOf q ''.git/'' + 5)) q @ ''refs/heads/'' @ sha"
        using Some False by (simp add: p normalizePath_slash eq oq q_def [symmetric])
      show ?thesis
      proof (cases "includes_str t ''.git/''")
        case True
        define i where "i = nat (indexOf t ''.git/'')"
        from True have ix: "indexOf t ''.git/'' = int i"
          by (simp add: i_def indexOf_includes)
        have iq: "indexOf q ''.git/'' = int i + 1"
          using ix by (simp add: q_def)
        define r where "r = take (i + 5) t @ ''refs/heads/'' @ sha"
        have "normalizePath p = CHR ''/'' # r"
          unfolding np iq by (simp add: q_def r_def nat_add_distrib take_Cons' add.commute)
        moreover have "normalizePath (CHR ''/'' # r) = r"
          using rewritten_fixed [OF Some False]
          by (simp add: normalizePath_slash ix nat_add_distrib r_def)
        ultimately show ?thesis by simp
      next
        case nomarker: False
        then have iq: "indexOf q ''.git/'' = - 1"
          by (intro indexOf_absent) (simp add: q_def)
        from len obtain a b c rest where t: "t = a # b # c # rest"
          by (cases t; cases "tl t"; cases "tl (tl t)") auto
        define r where "r = [a, b, c] @ ''refs/heads/'' @ sha"
        have r': "r = [a, b, c] @ CHR ''r'' # (''efs/heads/'' @ sha)"
          by (simp add: r_def)
        have n1: "normalizePath p = CHR ''/'' # r"
          unfolding np iq by (simp add: q_def r_def t)
        have "SHA_MATCHER_exec [a, b, c] = None"
          by (rule exec_short) simp
        then have e: "SHA_MATCHER_exec r = Some sha"
          unfolding r'
          by (subst exec_local) (simp_all add: is_hex_def exec_efs es del: SHA_MATCHER_exec.simps)
        have "\<not> includes_str [a, b, c] ''objects''"
          by (auto dest: includes_str_length)
        moreover have "\<not> includes_str (''efs/heads/'' @ sha) ''objects''"
          using token_no_objects [OF tok] by simp
        ultimately have o: "\<not> includes_str r ''objects''"
          unfolding r' by (subst includes_str_split) simp_all
        have "\<not> includes_str [a, b, c] ''.git/''"
          by (auto dest: includes_str_length)
        moreover have "\<not> includes_str (''efs/heads/'' @ sha) ''.git/''"
          using token_no_marker [OF tok] by simp
        ultimately have "\<not> includes_str r ''.git/''"
          unfolding r' by (subst includes_str_split) simp_all
        then have "indexOf r ''.git/'' = - 1" by (rule indexOf_absent)
        then have "normalizePath (CHR ''/'' # r) = take 4 r @ ''refs/heads/'' @ sha"
          using e o by (simp add: normalizePath_slash)
        also have "\<dots> = [a, b, c] @ ''rrefs/heads/'' @ sha"
          by (simp add: r_def)
        finally have n2: "normalizePath (CHR ''/'' # r) = [a, b, c] @ ''rrefs/heads/'' @ sha" .
        show ?thesis
          unfolding n1 n2 by (auto simp add: r_def)
      qed
    qed
  qed
qed

subsection \<open>Errors of the operations that catch\<close>

text \<open>
  \<open>readFile\<close>, \<open>writeFile\<close>, \<open>unlink\<close>, \<open>readdir\<close> and \<open>stat\<close> wrap their
  body in \<open>try\<close>/\<open>catch\<close>: whatever they raise has the code \<open>ENOENT\<close>.
\<close>

lemma rethrow_code: "code (rethrow e) = Some ''ENOENT''"
  by (simp add: rethrow_def)

lemma readFile_error_code: "readFile decode ev b p opts = Inl e \<Longrightarrow> code e = Some ''ENOENT''"
  by (auto simp add: readFile_def Let_def rethrow_code split: sum.splits option.splits if_splits)

lemma writeFile_error_code:
  "fst (writeFile encode ev b p d opts) = Inl e \<Longrightarrow> code e = Some ''ENOENT''"
  by (auto simp add: writeFile_def Let_def rethrow_code
      split: sum.splits prod.splits if_splits data.splits)

lemma unlink_error_code: "fst (unlink ev b p) = Inl e \<Longrightarrow> code e = Some ''ENOENT''"
  by (auto simp add: unlink_def rethrow_code split: sum.splits prod.splits)

lemma readdir_error_code: "readdir ev b p = Inl e \<Longrightarrow> code e = Some ''ENOENT''"
  by (auto simp add: readdir_def Let_def rethrow_code split: sum.splits)

lemma stat_error_code: "stat ev b p = Inl e \<Longrightarrow> code e = Some ''ENOENT''"
  by (auto simp add: stat_def rethrow_code split: sum.splits if_splits)


subsection \<open>Writing then reading\<close>

text \<open>
  Claim C1, as stated: for every datum \<open>d\<close>, \<open>writeFile(p, d, opts)\<close> and then
  \<open>readFile(p, opts)\<close> with the same option returns \<open>d\<close> unchanged. \<open>writeFile\<close>
  encodes a string as \<open>utf8\<close> when no encoding is given, and \<open>readFile\<close> decodes
  only when the encoding is \<open>utf8\<close>: the string \<open>abc\<close> written and read with no
  encoding comes back as its three bytes.
\<close>

theorem writeFile_then_readFile_counterexample:
  "fst (writeFile ascii_encode \<lparr>fault = None, now = 1\<rparr> [] ''a'' (Text ''abc'')
          \<lparr>encoding = None\<rparr>) = Inr ()
   \<and> readFile ascii_decode \<lparr>fault = None, now = 2\<rparr>
        (snd (writeFile ascii_encode \<lparr>fault = None, now = 1\<rparr> [] ''a'' (Text ''abc'')
          \<lparr>encoding = None\<rparr>)) ''a'' \<lparr>encoding = None\<rparr>
     = Inr (Bytes [97, 98, 99])
   \<and> Inr (Bytes [97, 98, 99]) \<noteq> (Inr (Text ''abc'') :: error + data)"
  by (simp add: writeFile_def putObject_def readFile_def getObject_def normalizePath_def
      string_defs matcher_defs ascii_encode_def)

text \<open>
  The same holds of every string written with an option other than \<open>utf8\<close> and of
  every byte array read with \<open>utf8\<close>: what comes back is of the other kind.
\<close>

lemma readFile_changes_representation:
  assumes "fst (writeFile encode ev b p d opts) = Inr ()" and "fault ev' = None"
    and "case d of Text s \<Rightarrow> encoding opts \<noteq> Some ''utf8''
                 | Bytes a \<Rightarrow> encoding opts = Some ''utf8''"
  shows "readFile decode ev' (snd (writeFile encode ev b p d opts)) p opts \<noteq> Inr d"
  using writeFile_success [OF assms(1)] assms(2,3)
  by (simp add: readFile_def getObject_def update_conv' Let_def split: data.splits)

text \<open>
  Claim C1, amended: for every path \<open>p\<close> and datum \<open>d\<close>, if
  \<open>writeFile(p, d, opts)\<close> succeeds and the store answers the next call,
  \<open>readFile(p, opts)\<close> with the same option returns the bytes that were stored for
  \<open>d\<close>, decoded to a string when the encoding is \<open>utf8\<close> and verbatim otherwise.
  So \<open>d\<close> comes back unchanged when it is bytes and the encoding is not \<open>utf8\<close>, and
  when it is a string, the encoding is \<open>utf8\<close> and the codec round-trips the string; a
  string written with any other option comes back as its encoded bytes, and bytes read
  with \<open>utf8\<close> come back decoded. The path is arbitrary, so paths that
  \<open>normalizePath\<close> rewrites are included: both operations compute the key with
  \<open>normalizePath\<close>.
\<close>

theorem writeFile_then_readFile:
  assumes "fst (writeFile encode ev b p d opts) = Inr ()"
    and "fault ev' = None"
  shows "readFile decode ev' (snd (writeFile encode ev b p d opts)) p opts
           = Inr (case d of
                    Text s \<Rightarrow> if encoding opts = Some ''utf8'' then Text (decode (encode s))
                              else Bytes (encode s)
                  | Bytes a \<Rightarrow> if encoding opts = Some ''utf8'' then Text (decode a)
                              else Bytes a)
         \<and> ((case d of
                Text s \<Rightarrow> encoding opts = Some ''utf8'' \<and> decode (encode s) = s
              | Bytes a \<Rightarrow> encoding opts \<noteq> Some ''utf8'') \<longrightarrow>
              readFile decode ev' (snd (writeFile encode ev b p d opts)) p opts = Inr d)"
  using writeFile_success [OF assms(1)] assms(2)
  by (simp add: readFile_def getObject_def update_conv' Let_def split: data.splits)

theorem writeFile_then_readFile_witness:
  "fst (writeFile ascii_encode \<lparr>fault = None, now = 1\<rparr> []
          ''/repo/.git/1234-5678-9abc-def0-1234567890ab'' (Text ''abc'') \<lparr>encoding = Some ''utf8''\<rparr>)
     = Inr ()
   \<and> ascii_decode (ascii_encode ''abc'') = ''abc''
   \<and> readFile ascii_decode \<lparr>fault = None, now = 2\<rparr>
        (snd (writeFile ascii_encode \<lparr>fault = None, now = 1\<rparr> []
          ''/repo/.git/1234-5678-9abc-def0-1234567890ab'' (Text ''abc'') \<lparr>encoding = Some ''utf8''\<rparr>))
        ''/repo/.git/1234-5678-9abc-def0-1234567890ab'' \<lparr>encoding = Some ''utf8''\<rparr>
     = Inr (Text ''abc'')"
proof -
  have w: "fst (writeFile ascii_encode \<lparr>fault = None, now = 1\<rparr> []
          ''/repo/.git/1234-5678-9abc-def0-1234567890ab'' (Text ''abc'') \<lparr>encoding = Some ''utf8''\<rparr>)
     = Inr ()"
    by (simp add: writeFile_def putObject_def)
  have c: "ascii_decode (ascii_encode ''abc'') = ''abc''"
    by code_simp
  show ?thesis
    using w c writeFile_then_readFile [OF w, of "\<lparr>fault = None, now = 2\<rparr>" ascii_decode]
    by simp
qed

subsection \<open>Writing then probing\<close>

text \<open>
  Claim C2, as stated: for every path \<open>p\<close>, after \<open>writeFile(p, d)\<close> the record of
  \<open>stat(p)\<close> has kind file and the size of \<open>d\<close>. On a path that ends in a separator
  \<open>stat\<close> answers a directory record of size 0 without asking the store.
\<close>

theorem stat_directory_path_counterexample:
  "fst (writeFile ascii_encode \<lparr>fault = None, now = 1\<rparr> [] ''d/'' (Text ''abc'')
          \<lparr>encoding = Some ''utf8''\<rparr>) = Inr ()
   \<and> stat \<lparr>fault = None, now = 2000\<rparr>
        (snd (writeFile ascii_encode \<lparr>fault = None, now = 1\<rparr> [] ''d/'' (Text ''abc'')
          \<lparr>encoding = Some ''utf8''\<rparr>)) ''d/''
     = Inr \<lparr>type = Dir, mode = 0, size' = 0, ino = ''0'', mtimeMs = 2\<rparr>"
  by (simp add: writeFile_def putObject_def stat_def string_defs seconds_def)

text \<open>
  \<open>stat\<close> probes the key \<open>filepath\<close> itself, where \<open>writeFile\<close> stores under
  \<open>normalizePath(filepath)\<close>: after writing \<open>/a\<close> the probe of \<open>/a\<close> finds nothing.
\<close>

lemma stat_leading_separator:
  "fst (writeFile ascii_encode \<lparr>fault = None, now = 1\<rparr> [] ''/a'' (Text ''abc'')
          \<lparr>encoding = Some ''utf8''\<rparr>) = Inr ()
   \<and> stat \<lparr>fault = None, now = 2\<rparr>
        (snd (writeFile ascii_encode \<lparr>fault = None, now = 1\<rparr> [] ''/a'' (Text ''abc'')
          \<lparr>encoding = Some ''utf8''\<rparr>)) ''/a''
     = Inl (Coded ''ENOENT'' ''UnknownError'')"
  by (simp add: writeFile_def putObject_def stat_def string_defs matcher_defs seconds_def
      normalizePath_def headObject_def rethrow_def)

text \<open>
  Claim C2, amended: for every path \<open>p\<close> that does not end in a separator and that
  \<open>normalizePath\<close> leaves unchanged, after \<open>writeFile(p, d)\<close> succeeds and when the
  store answers the probe, \<open>stat(p)\<close> reports kind file, the length of the stored
  bytes as size, and the time of the write.
\<close>

theorem writeFile_then_stat:
  assumes "fst (writeFile encode ev b p d opts) = Inr ()"
    and "fault ev' = None"
    and "\<not> endsWith p ''/''"
    and "normalizePath p = p"
  shows "stat ev' (snd (writeFile encode ev b p d opts)) p
           = Inr \<lparr>type = File, mode = 0,
                  size' = length (case d of Text s \<Rightarrow> encode s | Bytes a \<Rightarrow> a),
                  ino = ''0'', mtimeMs = seconds (now ev)\<rparr>"
  using writeFile_success [OF assms(1)] assms(2,3,4)
  by (simp add: stat_def headObject_def update_conv')

theorem writeFile_then_stat_witness:
  "fst (writeFile ascii_encode \<lparr>fault = None, now = 3000\<rparr> [] ''dir/a'' (Text ''abc'')
          \<lparr>encoding = Some ''utf8''\<rparr>) = Inr ()
   \<and> \<not> endsWith ''dir/a'' ''/''
   \<and> normalizePath ''dir/a'' = ''dir/a''
   \<and> stat \<lparr>fault = None, now = 4000\<rparr>
        (snd (writeFile ascii_encode \<lparr>fault = None, now = 3000\<rparr> [] ''dir/a'' (Text ''abc'')
          \<lparr>encoding = Some ''utf8''\<rparr>)) ''dir/a''
     = Inr \<lparr>type = File, mode = 0, size' = 3, ino = ''0'', mtimeMs = 3\<rparr>"
proof -
  have w: "fst (writeFile ascii_encode \<lparr>fault = None, now = 3000\<rparr> [] ''dir/a'' (Text ''abc'')
          \<lparr>encoding = Some ''utf8''\<rparr>) = Inr ()"
    by (simp add: writeFile_def putObject_def)
  have e: "\<not> endsWith ''dir/a'' ''/''"
    by (simp add: endsWith_def)
  have n: "normalizePath ''dir/a'' = ''dir/a''"
    by (simp add: normalizePath_def string_defs matcher_defs)
  show ?thesis
    using w e n writeFile_then_stat [OF w _ e n, of "\<lparr>fault = None, now = 4000\<rparr>"]
    by (simp add: ascii_encode_def seconds_def)
qed

subsection \<open>Deleting\<close>

text \<open>
  Claim C8 says that \<open>writeFile(p, d)\<close>, \<open>unlink(p)\<close>, \<open>readFile(p)\<close> ends with
  \<open>readFile\<close> failing, the unlink having removed exactly the object the write
  created, and that \<open>unlink\<close> on a path with no object fails. \<open>unlink\<close> deletes the
  key \<open>filepath\<close> itself, where \<open>writeFile\<close> and \<open>readFile\<close> use
  \<open>normalizePath(filepath)\<close>: after writing \<open>/a\<close> the object lies under \<open>a\<close>,
  unlinking \<open>/a\<close> succeeds and leaves it there, and reading \<open>/a\<close> returns the
  data. The last conjunct is \<open>unlink\<close> on a path with no object: it succeeds.
\<close>

theorem unlink_literal_key:
  "fst (writeFile ascii_encode \<lparr>fault = None, now = 1\<rparr> [] ''/a'' (Text ''abc'')
          \<lparr>encoding = Some ''utf8''\<rparr>) = Inr ()
   \<and> snd (writeFile ascii_encode \<lparr>fault = None, now = 1\<rparr> [] ''/a'' (Text ''abc'')
          \<lparr>encoding = Some ''utf8''\<rparr>) = [(''a'', \<lparr>Body = [97, 98, 99], LastModified = 1\<rparr>)]
   \<and> unlink \<lparr>fault = None, now = 2\<rparr> [(''a'', \<lparr>Body = [97, 98, 99], LastModified = 1\<rparr>)] ''/a''
       = (Inr (), [(''a'', \<lparr>Body = [97, 98, 99], LastModified = 1\<rparr>)])
   \<and> readFile ascii_decode \<lparr>fault = None, now = 3\<rparr>
         [(''a'', \<lparr>Body = [97, 98, 99], LastModified = 1\<rparr>)] ''/a'' \<lparr>encoding = Some ''utf8''\<rparr>
       = Inr (Text ''abc'')
   \<and> unlink \<lparr>fault = None, now = 2\<rparr> [] ''a'' = (Inr (), [])"
  by code_simp

text \<open>
  When the store answers, \<open>unlink\<close> succeeds and removes exactly the key it was given:
  every other key keeps its object.
\<close>

lemma unlink_removes_exactly:
  "fst (unlink \<lparr>fault = None, now = t\<rparr> b p) = Inr ()
   \<and> map_of (snd (unlink \<lparr>fault = None, now = t\<rparr> b p)) = (map_of b)(p := None)"
  by (simp add: unlink_def deleteObject_def delete_conv')

text \<open>
  On a path that \<open>normalizePath\<close> leaves unchanged the key given to \<open>unlink\<close> is the
  key of the write, and the sequence ends as the claim says: a later \<open>readFile\<close> fails
  with code \<open>ENOENT\<close>. \<open>unlink\<close> on a key with no object leaves the bucket as it
  was.
\<close>

lemma unlink_then_readFile:
  "(map_of b p = None \<longrightarrow> unlink \<lparr>fault = None, now = t\<rparr> b p = (Inr (), b))
   \<and> (normalizePath p = p \<and> fst (writeFile encode ev b p d opts) = Inr () \<longrightarrow>
        fst (unlink \<lparr>fault = None, now = t\<rparr> (snd (writeFile encode ev b p d opts)) p) = Inr ()
        \<and> readFile decode \<lparr>fault = None, now = t'\<rparr>
            (snd (unlink \<lparr>fault = None, now = t\<rparr> (snd (writeFile encode ev b p d opts)) p))
            p opts'
          = Inl (Coded ''ENOENT'' ''The specified key does not exist.''))"
proof (intro conjI impI)
  assume "map_of b p = None"
  then have "p \<notin> fst ` set b"
    by (simp add: map_of_eq_None_iff)
  then show "unlink \<lparr>fault = None, now = t\<rparr> b p = (Inr (), b)"
    by (simp add: unlink_def deleteObject_def)
next
  assume a: "normalizePath p = p \<and> fst (writeFile encode ev b p d opts) = Inr ()"
  show "fst (unlink \<lparr>fault = None, now = t\<rparr> (snd (writeFile encode ev b p d opts)) p) = Inr ()"
    by (simp add: unlink_def deleteObject_def)
  from a writeFile_success [of encode ev b p d opts]
  show "readFile decode \<lparr>fault = None, now = t'\<rparr>
            (snd (unlink \<lparr>fault = None, now = t\<rparr> (snd (writeFile encode ev b p d opts)) p))
            p opts'
          = Inl (Coded ''ENOENT'' ''The specified key does not exist.'')"
    by (simp add: unlink_def deleteObject_def readFile_def getObject_def delete_conv' rethrow_def)
qed

lemma unlink_then_readFile_example:
  "map_of ([] :: bucket) ''a'' = None
   \<and> unlink \<lparr>fault = None, now = 2\<rparr> [] ''a'' = (Inr (), [])
   \<and> normalizePath ''a'' = ''a''
   \<and> fst (writeFile ascii_encode \<lparr>fault = None, now = 1\<rparr> [] ''a'' (Text ''abc'')
            \<lparr>encoding = Some ''utf8''\<rparr>) = Inr ()
   \<and> readFile ascii_decode \<lparr>fault = None, now = 3\<rparr>
       (snd (unlink \<lparr>fault = None, now = 2\<rparr>
          (snd (writeFile ascii_encode \<lparr>fault = None, now = 1\<rparr> [] ''a'' (Text ''abc'')
                  \<lparr>encoding = Some ''utf8''\<rparr>)) ''a''))
       ''a'' \<lparr>encoding = Some ''utf8''\<rparr>
     = Inl (Coded ''ENOENT'' ''The specified key does not exist.'')"
proof -
  have n: "normalizePath ''a'' = ''a''"
    by (simp add: normalizePath_def string_defs matcher_defs)
  have w: "fst (writeFile ascii_encode \<lparr>fault = None, now = 1\<rparr> [] ''a'' (Text ''abc'')
            \<lparr>encoding = Some ''utf8''\<rparr>) = Inr ()"
    by (simp add: writeFile_def putObject_def)
  show ?thesis
    using n w unlink_then_readFile [of "[]" "''a''" 2 ascii_encode "\<lparr>fault = None, now = 1\<rparr>"
        "Text ''abc''" "\<lparr>encoding = Some ''utf8''\<rparr>" ascii_decode 3 "\<lparr>encoding = Some ''utf8''\<rparr>"]
    by simp
qed


subsection \<open>Directory listing\<close>

text \<open>
  Claim C4, as stated: with exactly the keys \<open>a/x\<close>, \<open>a/y/z\<close> and \<open>a/\<close> in the
  store, \<open>readdir("a/")\<close> returns \<open>["x", "y"]\<close>. It does not: the names taken from the
  common prefixes are pushed before the names taken from the contents.
\<close>

theorem readdir_scenario_counterexample:
  "readdir \<lparr>fault = None, now = 0\<rparr>
     [(''a/x'', \<lparr>Body = [], LastModified = 0\<rparr>),
      (''a/y/z'', \<lparr>Body = [], LastModified = 0\<rparr>),
      (''a/'', \<lparr>Body = [], LastModified = 0\<rparr>)] ''a/'' \<noteq> Inr [''x'', ''y'']"
  by (simp add: readdir_def normalizePath_def string_defs matcher_defs store_defs
      subfolder_name_def file_name_def)

text \<open>
  Claim C4, amended: \<open>readdir("a/")\<close> returns exactly \<open>["y", "x"]\<close>, whatever the
  three objects hold: the subdirectory name from the common prefixes first, then the file
  name from the contents, the directory's own marker left out and the parent prefix
  stripped.
\<close>

theorem readdir_scenario:
  "readdir \<lparr>fault = None, now = t\<rparr> [(''a/x'', ox), (''a/y/z'', oz), (''a/'', om)] ''a/''
     = Inr [''y'', ''x'']"
  by (simp add: readdir_def normalizePath_def string_defs matcher_defs store_defs
      subfolder_name_def file_name_def)

subsection \<open>Error translation\<close>

text \<open>
  Claim C5 says that every failure of a store call surfaces with code \<open>ENOENT\<close> from
  every operation. \<open>lstat\<close>, \<open>mkdir\<close> and \<open>rmdir\<close> have no \<open>catch\<close> block: the
  exception of the store client leaves them as it is, without a code. \<open>lstat("a")\<close> on
  an empty bucket is the first conjunct.
\<close>

theorem lstat_mkdir_rmdir_raw_error:
  "lstat \<lparr>fault = None, now = t\<rparr> [] ''a'' = Inl (ServiceException ''NotFound'' ''UnknownError'')
   \<and> code (ServiceException ''NotFound'' ''UnknownError'') \<noteq> Some ''ENOENT''
   \<and> lstat \<lparr>fault = Some (ServiceException n m), now = t\<rparr> b ''a'' = Inl (ServiceException n m)
   \<and> fst (mkdir \<lparr>fault = Some (ServiceException n m), now = t\<rparr> b p) = Inl (ServiceException n m)
   \<and> fst (rmdir \<lparr>fault = Some (ServiceException n m), now = t\<rparr> b p) = Inl (ServiceException n m)
   \<and> code (ServiceException n m) \<noteq> Some ''ENOENT''"
  by (simp add: lstat_def mkdir_def rmdir_def string_defs store_defs Let_def)

text \<open>
  Claim C7, as stated: a string written with an encoding other than \<open>utf8\<close> fails with a
  kind distinct from not-found. The error is thrown inside the \<open>try\<close> block of
  \<open>writeFile\<close>, whose \<open>catch\<close> gives it the code \<open>ENOENT\<close>.
\<close>

theorem writeFile_encoding_counterexample:
  "fst (writeFile ascii_encode \<lparr>fault = None, now = 0\<rparr> [] ''a'' (Text ''x'')
          \<lparr>encoding = Some ''latin1''\<rparr>) = Inl (Coded ''ENOENT'' unsupported_encoding)
   \<and> code (Coded ''ENOENT'' unsupported_encoding) = Some ''ENOENT''"
  by (simp add: writeFile_def rethrow_def)

text \<open>
  Claim C7, amended: for every path and every string, \<open>writeFile\<close> with an encoding
  other than \<open>utf8\<close> fails with an error of code \<open>ENOENT\<close> that carries the message
  \<open>Only "utf8" encoding is supported in writeFile\<close>, and leaves the bucket as it was.
\<close>

theorem writeFile_unsupported_encoding:
  "x \<noteq> ''utf8'' \<Longrightarrow>
     writeFile encode ev b p (Text s) \<lparr>encoding = Some x\<rparr>
       = (Inl (Coded ''ENOENT'' unsupported_encoding), b)"
  by (simp add: writeFile_def rethrow_def)

theorem writeFile_unsupported_encoding_witness:
  "''latin1'' \<noteq> ''utf8'' \<and>
     writeFile ascii_encode \<lparr>fault = None, now = 0\<rparr> [] ''a'' (Text ''x'')
         \<lparr>encoding = Some ''latin1''\<rparr>
       = (Inl (Coded ''ENOENT'' unsupported_encoding), [])"
  using writeFile_unsupported_encoding
    [of "''latin1''" ascii_encode "\<lparr>fault = None, now = 0\<rparr>" "[]" "''a''" "''x''"]
  by simp

subsection \<open>Path normalization\<close>

text \<open>
  Claim C3 says that a matching path is rewritten to the root, up to and including the
  \<open>.git/\<close> marker, followed by \<open>refs/heads/\<close> and the matched text. On a matching path
  without the marker, \<open>indexOf\<close> answers \<open>-1\<close> and the root is
  \<open>p.slice(0, 4)\<close>, the first four characters of the path.
\<close>

theorem normalizePath_without_marker:
  "normalizePath ''refs/heads/1234-5678-9abc-def0-1234567890ab''
     = ''refsrefs/heads/1234-5678-9abc-def0-1234567890ab''
   \<and> indexOf ''refs/heads/1234-5678-9abc-def0-1234567890ab'' ''.git/'' = - 1"
  by (simp add: normalizePath_def string_defs matcher_defs)

text \<open>
  Claim C9, as stated: \<open>normalizePath\<close> is idempotent on every path. It strips one
  leading separator, so on \<open>//a\<close> the first pass answers \<open>/a\<close> and the second
  \<open>a\<close>.
\<close>

theorem normalizePath_idempotent_counterexample:
  "normalizePath (normalizePath ''//a'') \<noteq> normalizePath ''//a''"
  by (simp add: normalizePath_def string_defs matcher_defs)


text \<open>
  Claim C9, amended: for every path that does not begin with two separators,
  \<open>normalizePath(normalizePath(p)) = normalizePath(p)\<close>. A rewritten path
  \<open>start @ refs/heads/ @ sha\<close> is a fixed point: the matcher finds \<open>sha\<close> in it
  again, it contains no \<open>objects\<close>, and \<open>indexOf\<close> cuts the same \<open>start\<close>.
\<close>

theorem normalizePath_idempotent:
  assumes "\<not> startsWith p ''//''"
  shows "normalizePath (normalizePath p) = normalizePath p"
proof -
  define q where "q = (if startsWith p ''/'' then drop 1 p else p)"
  have nq: "\<not> startsWith q ''/''"
    using assms by (cases p) (auto simp add: q_def startsWith_def)
  have "p = q \<or> p = CHR ''/'' # q"
    by (cases p) (auto simp add: q_def startsWith_def)
  then have np: "normalizePath p = normalizePath q"
    using normalizePath_strip [OF nq] by auto
  show ?thesis
  proof (cases "SHA_MATCHER_exec q")
    case None
    then have "normalizePath q = q"
      by (simp add: normalizePath_unfold [OF nq])
    then show ?thesis by (simp add: np)
  next
    case (Some sha)
    show ?thesis
    proof (cases "includes_str q ''objects''")
      case True
      with Some have "normalizePath q = q"
        by (simp add: normalizePath_unfold [OF nq])
      then show ?thesis by (simp add: np)
    next
      case False
      define start where "start = take (nat (indexOf q ''.git/'' + 5)) q"
      define q' where "q' = start @ ''refs/heads/'' @ sha"
      have r: "normalizePath q = q'"
        using Some False by (simp add: normalizePath_unfold [OF nq] q'_def start_def)
      have "24 \<le> length q"
        using exec_Some [OF Some] by simp
      moreover have "4 \<le> nat (indexOf q ''.git/'' + 5)"
        using indexOf_bounds [of q "''.git/''"] by simp
      ultimately obtain c cs where "q = c # cs" "start = c # take (nat (indexOf q ''.git/'' + 5) - 1) cs"
        by (cases q) (auto simp add: start_def take_Cons')
      with nq have nq': "\<not> startsWith q' ''/''"
        by (simp add: q'_def startsWith_def)
      have f: "SHA_MATCHER_exec q' = Some sha" "\<not> includes_str q' ''objects''"
        "take (nat (indexOf q' ''.git/'' + 5)) q' = start"
        using rewritten_fixed [OF Some False] unfolding q'_def start_def by simp_all
      have "normalizePath q' = start @ ''refs/heads/'' @ sha"
        by (simp add: normalizePath_unfold [OF nq'] f)
      then show ?thesis by (simp add: q'_def np r)
    qed
  qed
qed

theorem normalizePath_idempotent_witness:
  "\<not> startsWith ''/repo/.git/1234-5678-9abc-def0-1234567890ab'' ''//''
   \<and> normalizePath ''/repo/.git/1234-5678-9abc-def0-1234567890ab''
       = ''repo/.git/refs/heads/1234-5678-9abc-def0-1234567890ab''
   \<and> normalizePath (normalizePath ''/repo/.git/1234-5678-9abc-def0-1234567890ab'')
       = normalizePath ''/repo/.git/1234-5678-9abc-def0-1234567890ab''"
proof -
  have s: "\<not> startsWith ''/repo/.git/1234-5678-9abc-def0-1234567890ab'' ''//''"
    by (simp add: startsWith_def)
  have n: "normalizePath ''/repo/.git/1234-5678-9abc-def0-1234567890ab''
       = ''repo/.git/refs/heads/1234-5678-9abc-def0-1234567890ab''"
    by (simp add: normalizePath_def string_defs matcher_defs)
  show ?thesis
    using s n normalizePath_idempotent [OF s] by simp
qed

subsection \<open>Directory markers\<close>

text \<open>
  Claim C6 says that \<open>mkdir\<close> writes the marker when none exists and fails with
  AlreadyExists when the marker is present. \<open>mkdir\<close> is one \<open>putObject\<close> with no
  probe before it: with the marker \<open>d/\<close> in the bucket, \<open>mkdir("d")\<close> succeeds and
  overwrites the marker.
\<close>

theorem mkdir_existing_marker:
  "mkdir \<lparr>fault = None, now = 1\<rparr> [(''d/'', \<lparr>Body = [], LastModified = 0\<rparr>)] ''d''
     = (Inr (), [(''d/'', \<lparr>Body = [], LastModified = 1\<rparr>)])"
  by (simp add: mkdir_def normalizePath_def string_defs matcher_defs store_defs)

text \<open>
  What \<open>mkdir\<close> does whenever the store answers: it succeeds and leaves a zero-length
  object at the key \<open>normalizePath(filepath)\<close>, with a separator appended only when
  the normalized path does not end in one; the key ends in a separator and no other key
  changes.
\<close>

lemma mkdir_writes_marker:
  "fst (mkdir \<lparr>fault = None, now = t\<rparr> b p) = Inr ()
   \<and> map_of (snd (mkdir \<lparr>fault = None, now = t\<rparr> b p)) (mkdir_key p)
        = Some \<lparr>Body = [], LastModified = t\<rparr>
   \<and> (\<forall>k. k \<noteq> mkdir_key p \<longrightarrow>
          map_of (snd (mkdir \<lparr>fault = None, now = t\<rparr> b p)) k = map_of b k)
   \<and> endsWith (mkdir_key p) ''/''"
  by (simp add: mkdir_def putObject_def update_conv' mkdir_key_def Let_def endsWith_slash)

lemma mkdir_writes_marker_example:
  "fst (mkdir \<lparr>fault = None, now = 1\<rparr> [(''d/'', \<lparr>Body = [], LastModified = 0\<rparr>)] ''/d'')
     = Inr ()
   \<and> mkdir_key ''/d'' = ''d/''
   \<and> map_of (snd (mkdir \<lparr>fault = None, now = 1\<rparr>
                     [(''d/'', \<lparr>Body = [], LastModified = 0\<rparr>)] ''/d'')) ''d/''
        = Some \<lparr>Body = [], LastModified = 1\<rparr>
   \<and> ''x'' \<noteq> mkdir_key ''/d''
   \<and> map_of (snd (mkdir \<lparr>fault = None, now = 1\<rparr>
                     [(''d/'', \<lparr>Body = [], LastModified = 0\<rparr>)] ''/d'')) ''x''
        = None"
proof -
  have k: "mkdir_key ''/d'' = ''d/''"
    by (simp add: mkdir_key_def normalizePath_def string_defs matcher_defs)
  show ?thesis
    using mkdir_writes_marker [of 1 "[(''d/'', \<lparr>Body = [], LastModified = 0\<rparr>)]" "''/d''"]
    by (simp add: k)
qed


subsection \<open>Metadata\<close>

text \<open>
  Claim C10. On every path and bucket, \<open>stat\<close> succeeds with a record exactly when
  \<open>lstat\<close> succeeds with the same record (the two take the clock from the same
  environment), and the record is never a symlink; its mode is 0 and its identity
  \<open>"0"\<close>.
\<close>

theorem stat_lstat_agree:
  "(stat ev b p = Inr r \<longleftrightarrow> lstat ev b p = Inr r)
   \<and> (stat ev b p = Inr r \<longrightarrow> type r \<noteq> Symlink \<and> mode r = 0 \<and> ino r = ''0'')"
  by (auto simp add: stat_def lstat_def split: sum.splits)

theorem stat_lstat_agree_witness:
  "stat \<lparr>fault = None, now = 7\<rparr> [(''a'', \<lparr>Body = [1, 2], LastModified = 3000\<rparr>)] ''a''
     = Inr \<lparr>type = File, mode = 0, size' = 2, ino = ''0'', mtimeMs = 3\<rparr>
   \<and> lstat \<lparr>fault = None, now = 7\<rparr> [(''a'', \<lparr>Body = [1, 2], LastModified = 3000\<rparr>)] ''a''
     = Inr \<lparr>type = File, mode = 0, size' = 2, ino = ''0'', mtimeMs = 3\<rparr>
   \<and> type \<lparr>type = File, mode = 0, size' = 2, ino = ''0'', mtimeMs = 3\<rparr> \<noteq> Symlink"
proof -
  have s: "stat \<lparr>fault = None, now = 7\<rparr> [(''a'', \<lparr>Body = [1, 2], LastModified = 3000\<rparr>)] ''a''
     = Inr \<lparr>type = File, mode = 0, size' = 2, ino = ''0'', mtimeMs = 3\<rparr>"
    by (simp add: stat_def string_defs store_defs seconds_def)
  show ?thesis
    using s stat_lstat_agree [of "\<lparr>fault = None, now = 7\<rparr>"
        "[(''a'', \<lparr>Body = [1, 2], LastModified = 3000\<rparr>)]" "''a''"
        "\<lparr>type = File, mode = 0, size' = 2, ino = ''0'', mtimeMs = 3\<rparr>"]
    by simp
qed

end
